theory Spec2Isabelle
  imports Complex_Main "HOL-Library.Log_Nat"
begin

section \<open>Python values: errors, dictionaries, lists\<close>

text \<open>
  The module \<^verbatim>\<open>evaluation/plotting_common.py\<close> is embedded function by function.
  Every exception the Python code can raise is a value of \<open>py_error\<close>; a computation
  that may raise returns \<open>py_error + 'a\<close>, with \<open>Inl\<close> for the exception.
\<close>

datatype py_error = KeyError | IndexError | OverflowError | ZeroDivisionError | OSError

text \<open>A dictionary with string keys; \<open>d[k]\<close> raises \<open>KeyError\<close> on a missing key.\<close>

type_synonym 'v dict = "string \<rightharpoonup> 'v"

definition dict_getitem :: "'v dict \<Rightarrow> string \<Rightarrow> py_error + 'v" where
  "dict_getitem d k = (case d k of None \<Rightarrow> Inl KeyError | Some v \<Rightarrow> Inr v)"

text \<open>\<open>xs[i]\<close> for an index literal \<open>i \<ge> 0\<close>; out of range raises \<open>IndexError\<close>.\<close>

definition list_getitem :: "'a list \<Rightarrow> nat \<Rightarrow> py_error + 'a" where
  "list_getitem xs i = (if i < length xs then Inr (xs ! i) else Inl IndexError)"

section \<open>Category palette\<close>

text \<open>
  \<^verbatim>\<open>colors = sns.color_palette("husl", 6)\<close>. The palette generator belongs to the
  seaborn library, not to this module: it is the parameter \<open>color_palette\<close>, a function
  from the palette name and the number of colours to the list of colours.
\<close>

definition colors :: "(string \<Rightarrow> nat \<Rightarrow> 'c list) \<Rightarrow> 'c list" where
  "colors color_palette = color_palette ''husl'' 6"

text \<open>
  \<^verbatim>\<open>category_colors = {"prime": colors[3], "round": colors[0], "round_minus_one": colors[2]}\<close>,
  evaluated when the module is loaded. The three subscripts are evaluated in the order
  of the dictionary display; the first that is out of range aborts the load.
\<close>

definition category_colors :: "(string \<Rightarrow> nat \<Rightarrow> 'c list) \<Rightarrow> py_error + 'c dict" where
  "category_colors color_palette =
     (case list_getitem (colors color_palette) 3 of
        Inl e \<Rightarrow> Inl e
      | Inr c_prime \<Rightarrow>
     (case list_getitem (colors color_palette) 0 of
        Inl e \<Rightarrow> Inl e
      | Inr c_round \<Rightarrow>
     (case list_getitem (colors color_palette) 2 of
        Inl e \<Rightarrow> Inl e
      | Inr c_rm1 \<Rightarrow>
          Inr [''prime'' \<mapsto> c_prime, ''round'' \<mapsto> c_round, ''round_minus_one'' \<mapsto> c_rm1])))"

definition category_markers :: "string dict" where
  "category_markers = [''prime'' \<mapsto> ''*'', ''round'' \<mapsto> ''x'', ''round_minus_one'' \<mapsto> ''o'']"

text \<open>The closed set of category labels.\<close>

definition category_labels :: "string set" where
  "category_labels = {''prime'', ''round'', ''round_minus_one''}"

section \<open>Style configuration\<close>

text \<open>
  The process-wide rendering configuration is the dictionary \<^verbatim>\<open>matplotlib.rcParams\<close>
  (\<^verbatim>\<open>plt.rcParams\<close> is the same object). The three values the module stores are an
  integer, a boolean and a string; the settings of a style sheet are text.
\<close>

datatype rc_value = RcInt int | RcBool bool | RcStr string

type_synonym rc_params = "rc_value dict"

text \<open>
  \<^verbatim>\<open>matplotlib.style.use(name)\<close> belongs to the plotting library. Its registry of style
  sheets is the parameter \<open>library\<close>; using a style updates the configuration with the
  settings of the sheet, and a name that is not registered raises \<open>OSError\<close>.
\<close>

definition style_use :: "rc_params dict \<Rightarrow> string \<Rightarrow> rc_params \<Rightarrow> py_error + rc_params" where
  "style_use library name rc =
     (case library name of None \<Rightarrow> Inl OSError | Some settings \<Rightarrow> Inr (rc ++ settings))"

text \<open>
  \<^verbatim>\<open>setup_plotting_style()\<close>: no argument, no \<^verbatim>\<open>return\<close> statement. The model takes
  the configuration and returns \<open>()\<close> with the new configuration.
\<close>

definition setup_plotting_style :: "rc_params dict \<Rightarrow> rc_params \<Rightarrow> py_error + unit \<times> rc_params" where
  "setup_plotting_style library rc =
     (case style_use library ''ggplot'' rc of
        Inl e \<Rightarrow> Inl e
      | Inr rc1 \<Rightarrow>
          (let rc2 = rc1(''figure.dpi'' \<mapsto> RcInt 300);
               rc3 = rc2 ++ [''text.usetex'' \<mapsto> RcBool True, ''font.family'' \<mapsto> RcStr ''serif'']
           in Inr ((), rc3)))"

section \<open>Python numbers\<close>

text \<open>
  The formatter receives a Python number: an \<^verbatim>\<open>int\<close> (unbounded) or a \<^verbatim>\<open>float\<close>
  (an IEEE 754 double). A finite double is its sign bit (\<open>True\<close> for negative) and its
  magnitude, an exact rational.
\<close>

datatype pyfloat = Finite bool rat | Infinity bool | NaN

datatype pynum = PyInt int | PyFloat pyfloat

definition pow2 :: "int \<Rightarrow> rat" where
  "pow2 e = (if 0 \<le> e then 2 ^ nat e else 1 / 2 ^ nat (- e))"

text \<open>The exponent of the leading bit of a positive rational: \<open>\<lfloor>log\<^sub>2 q\<rfloor>\<close>.\<close>

definition floor_log2 :: "rat \<Rightarrow> int" where
  "floor_log2 q = (if 1 \<le> q then bitlen \<lfloor>q\<rfloor> - 1 else - bitlen (\<lceil>1 / q\<rceil> - 1))"

text \<open>Rounding to the nearest integer, a tie going to the even neighbour.\<close>

definition round_half_even :: "rat \<Rightarrow> int" where
  "round_half_even r =
     (let n = \<lfloor>r\<rfloor>; d = r - of_int n
      in if d < 1 / 2 then n else if 1 / 2 < d then n + 1 else if even n then n else n + 1)"

text \<open>
  The magnitude of the double nearest to a non-negative rational: 53 significant bits,
  the least exponent of the last bit being \<open>-1074\<close>, ties to even. The result is not
  bounded above; the callers test it for overflow.
\<close>

definition round_to_double :: "rat \<Rightarrow> rat" where
  "round_to_double q =
     (if q = 0 then 0
      else let e = max (floor_log2 q - 52) (- 1074)
           in of_int (round_half_even (q / pow2 e)) * pow2 e)"

definition double_overflow :: "rat \<Rightarrow> bool" where
  "double_overflow r = (2 ^ 1024 \<le> r)"

text \<open>The magnitudes that are doubles: rounding leaves them as they are.\<close>

definition is_double :: "rat \<Rightarrow> bool" where
  "is_double q = (0 \<le> q \<and> round_to_double q = q \<and> \<not> double_overflow q)"

text \<open>\<^verbatim>\<open>float(i)\<close>: correctly rounded; \<open>OverflowError\<close> when the result is out of range.\<close>

definition int_to_float :: "int \<Rightarrow> py_error + pyfloat" where
  "int_to_float i =
     (let r = round_to_double (of_int \<bar>i\<bar>)
      in if double_overflow r then Inl OverflowError else Inr (Finite (i < 0) r))"

text \<open>
  \<^verbatim>\<open>a / b\<close> on two ints: the exact quotient correctly rounded, \<open>ZeroDivisionError\<close> for
  \<open>b = 0\<close>, \<open>OverflowError\<close> when the quotient is too large for a float.
\<close>

definition int_truediv :: "int \<Rightarrow> int \<Rightarrow> py_error + pyfloat" where
  "int_truediv a b =
     (if b = 0 then Inl ZeroDivisionError
      else let r = round_to_double (of_int \<bar>a\<bar> / of_int \<bar>b\<bar>)
           in if double_overflow r then Inl OverflowError
              else Inr (Finite ((a < 0) \<noteq> (b < 0)) r))"

text \<open>
  \<^verbatim>\<open>x / y\<close> on two floats: \<open>ZeroDivisionError\<close> for a zero divisor, otherwise the
  IEEE 754 quotient (an overflow gives an infinity, not an exception).
\<close>

fun float_truediv :: "pyfloat \<Rightarrow> pyfloat \<Rightarrow> py_error + pyfloat" where
  "float_truediv x (Finite t d) =
     (if d = 0 then Inl ZeroDivisionError
      else case x of
        NaN \<Rightarrow> Inr NaN
      | Infinity s \<Rightarrow> Inr (Infinity (s \<noteq> t))
      | Finite s q \<Rightarrow>
          (let r = round_to_double (q / d)
           in if double_overflow r then Inr (Infinity (s \<noteq> t)) else Inr (Finite (s \<noteq> t) r)))"
| "float_truediv x NaN = Inr NaN"
| "float_truediv x (Infinity t) =
     (case x of
        NaN \<Rightarrow> Inr NaN
      | Infinity s \<Rightarrow> Inr NaN
      | Finite s q \<Rightarrow> Inr (Finite (s \<noteq> t) 0))"

text \<open>\<^verbatim>\<open>x / b\<close> for a number \<open>x\<close> and an int \<open>b\<close>; a float \<open>x\<close> converts \<open>b\<close> first.\<close>

fun truediv_int :: "pynum \<Rightarrow> int \<Rightarrow> py_error + pyfloat" where
  "truediv_int (PyInt a) b = int_truediv a b"
| "truediv_int (PyFloat x) b =
     (case int_to_float b of Inl e \<Rightarrow> Inl e | Inr y \<Rightarrow> float_truediv x y)"

text \<open>
  \<^verbatim>\<open>x < b\<close> for a number \<open>x\<close> and an int \<open>b\<close>. Python compares a float with an int
  exactly; every comparison with a NaN is false.
\<close>

fun lt_int :: "pynum \<Rightarrow> int \<Rightarrow> bool" where
  "lt_int (PyInt a) b = (a < b)"
| "lt_int (PyFloat (Finite s q)) b = ((if s then - q else q) < of_int b)"
| "lt_int (PyFloat (Infinity s)) b = s"
| "lt_int (PyFloat NaN) b = False"

text \<open>
  The numbers the rule of the specification is stated for: a non-negative int that a
  double holds exactly (every int from \<open>0\<close> to \<open>2^53\<close> is one), and a finite float
  with a clear sign bit. \<open>exact_value\<close> gives the value of such a number.
\<close>

fun exact_value :: "pynum \<Rightarrow> rat option" where
  "exact_value (PyInt i) = (if 0 \<le> i \<and> is_double (of_int i) then Some (of_int i) else None)"
| "exact_value (PyFloat (Finite s q)) = (if \<not> s \<and> is_double q then Some q else None)"
| "exact_value (PyFloat (Infinity s)) = None"
| "exact_value (PyFloat NaN) = None"

section \<open>Formatting to zero decimal places\<close>

definition digit_char :: "nat \<Rightarrow> char" where
  "digit_char d = ''0123456789'' ! d"

fun decimal :: "nat \<Rightarrow> string" where
  "decimal n = (if n < 10 then [digit_char n] else decimal (n div 10) @ [digit_char (n mod 10)])"

declare decimal.simps [simp del]

text \<open>
  \<^verbatim>\<open>"{:.0f}".format(x)\<close> for a float: the exact value rounded to an integer, ties to
  even; the sign is that of the float, also when the digits are \<open>0\<close>.
\<close>

fun format_float_0f :: "pyfloat \<Rightarrow> string" where
  "format_float_0f (Finite s q) = (if s then ''-'' else []) @ decimal (nat (round_half_even q))"
| "format_float_0f (Infinity s) = (if s then ''-inf'' else ''inf'')"
| "format_float_0f NaN = ''nan''"

text \<open>The same format on any number: an int is converted to a float first.\<close>

fun format_0f :: "pynum \<Rightarrow> py_error + string" where
  "format_0f (PyFloat x) = Inr (format_float_0f x)"
| "format_0f (PyInt i) =
     (case int_to_float i of Inl e \<Rightarrow> Inl e | Inr x \<Rightarrow> Inr (format_float_0f x))"

section \<open>Byte-count axis formatter\<close>

definition bytes_to_human_readable :: "pynum \<Rightarrow> 'p \<Rightarrow> py_error + string" where
  "bytes_to_human_readable x pos =
     (if lt_int x 1024 then
        (case format_0f x of Inl e \<Rightarrow> Inl e | Inr s \<Rightarrow> Inr (s @ ''B''))
      else if lt_int x (1024 ^ 2) then
        (case truediv_int x 1024 of
           Inl e \<Rightarrow> Inl e
         | Inr q \<Rightarrow> (case format_0f (PyFloat q) of Inl e \<Rightarrow> Inl e | Inr s \<Rightarrow> Inr (s @ ''KiB'')))
      else
        (case truediv_int x (1024 ^ 2) of
           Inl e \<Rightarrow> Inl e
         | Inr q \<Rightarrow> (case format_0f (PyFloat q) of Inl e \<Rightarrow> Inl e | Inr s \<Rightarrow> Inr (s @ ''MiB''))))"

text \<open>
  A tick formatter of the plotting library is one of the two classes the module uses:
  \<^verbatim>\<open>FuncFormatter(f)\<close>, which labels a tick with \<open>f(x, pos)\<close>, and \<^verbatim>\<open>NullFormatter()\<close>,
  which labels every tick with the empty string.
\<close>

datatype 'p formatter = FuncFormatter "pynum \<Rightarrow> 'p \<Rightarrow> py_error + string" | NullFormatter

fun formatter_call :: "'p formatter \<Rightarrow> pynum \<Rightarrow> 'p \<Rightarrow> py_error + string" where
  "formatter_call (FuncFormatter f) x pos = f x pos"
| "formatter_call NullFormatter x pos = Inr []"

record 'p axis =
  major_formatter :: "'p formatter"
  minor_formatter :: "'p formatter"

text \<open>
  \<^verbatim>\<open>setup_bytes_formatters(axis, minor=False)\<close>: mutates the axis, no \<^verbatim>\<open>return\<close>
  statement. The model returns \<open>()\<close> with the new axis.
\<close>

definition setup_bytes_formatters :: "'p axis \<Rightarrow> bool \<Rightarrow> unit \<times> 'p axis" where
  "setup_bytes_formatters axis minor =
     (let axis1 = axis\<lparr>major_formatter := FuncFormatter bytes_to_human_readable\<rparr>
      in if minor then ((), axis1\<lparr>minor_formatter := FuncFormatter bytes_to_human_readable\<rparr>)
         else ((), axis1\<lparr>minor_formatter := NullFormatter\<rparr>))"

section \<open>Properties of the category palette\<close>

lemma dom_category_markers: "dom category_markers = category_labels"
  by (auto simp: category_markers_def category_labels_def split: if_splits)

lemma category_colors_loaded:
  assumes "length (color_palette ''husl'' 6) = 6"
  shows "category_colors color_palette =
           Inr [''prime'' \<mapsto> color_palette ''husl'' 6 ! 3,
                ''round'' \<mapsto> color_palette ''husl'' 6 ! 0,
                ''round_minus_one'' \<mapsto> color_palette ''husl'' 6 ! 2]"
  using assms by (simp add: category_colors_def colors_def list_getitem_def)

text \<open>
  C4: \<open>category_colors\<close> has exactly the three keys \<open>prime\<close>, \<open>round\<close> and
  \<open>round_minus_one\<close>; they map to the colours at index 3, 0 and 2 of the six-colour
  \<open>husl\<close> palette, which is computed once as \<open>colors\<close>. The palette generator is
  assumed to return the six colours it is asked for.
\<close>

theorem category_colors_palette:
  assumes "length (color_palette ''husl'' 6) = 6"
  shows "\<exists>d. category_colors color_palette = Inr d
           \<and> dom d = category_labels
           \<and> colors color_palette = color_palette ''husl'' 6
           \<and> d ''prime'' = Some (colors color_palette ! 3)
           \<and> d ''round'' = Some (colors color_palette ! 0)
           \<and> d ''round_minus_one'' = Some (colors color_palette ! 2)"
  using category_colors_loaded [of color_palette] assms
  by (auto simp: colors_def category_labels_def split: if_splits)

theorem category_colors_palette_witness:
  "length ((\<lambda>name n. take n [10, 20, 30, 40, 50, 60 :: nat]) ''husl'' 6) = 6
   \<and> (\<exists>d. category_colors (\<lambda>name n. take n [10, 20, 30, 40, 50, 60 :: nat]) = Inr d
          \<and> dom d = category_labels
          \<and> d ''prime'' = Some 40 \<and> d ''round'' = Some 10 \<and> d ''round_minus_one'' = Some 30)"
  using category_colors_palette [of "\<lambda>name n. take n [10, 20, 30, 40, 50, 60 :: nat]"]
  by (simp add: colors_def)

text \<open>
  C5: \<open>category_markers\<close> has exactly the three keys and maps \<open>prime\<close> to \<open>*\<close>,
  \<open>round\<close> to \<open>x\<close> and \<open>round_minus_one\<close> to \<open>o\<close>; for each of the three labels the
  lookup succeeds in \<open>category_markers\<close> and in \<open>category_colors\<close>.
\<close>

theorem category_markers_lookup:
  assumes "k \<in> category_labels" and "length (color_palette ''husl'' 6) = 6"
  shows "dom category_markers = category_labels
         \<and> dict_getitem category_markers ''prime'' = Inr ''*''
         \<and> dict_getitem category_markers ''round'' = Inr ''x''
         \<and> dict_getitem category_markers ''round_minus_one'' = Inr ''o''
         \<and> (\<exists>m. dict_getitem category_markers k = Inr m)
         \<and> (\<exists>d c. category_colors color_palette = Inr d \<and> dict_getitem d k = Inr c)"
  using category_colors_loaded [of color_palette] assms dom_category_markers
  by (auto simp: dict_getitem_def category_markers_def category_labels_def)

theorem category_markers_lookup_witness:
  "''round'' \<in> category_labels
   \<and> length ((\<lambda>name n. take n [10, 20, 30, 40, 50, 60 :: nat]) ''husl'' 6) = 6
   \<and> dict_getitem category_markers ''round'' = Inr ''x''
   \<and> (\<exists>d c. category_colors (\<lambda>name n. take n [10, 20, 30, 40, 50, 60 :: nat]) = Inr d
            \<and> dict_getitem d ''round'' = Inr c)"
proof -
  have l: "''round'' \<in> category_labels"
    by (simp add: category_labels_def)
  have p: "length ((\<lambda>name n. take n [10, 20, 30, 40, 50, 60 :: nat]) ''husl'' 6) = 6"
    by simp
  show ?thesis
    using category_markers_lookup
            [of "''round''" "\<lambda>name n. take n [10, 20, 30, 40, 50, 60 :: nat]"] l p
    by blast
qed

text \<open>
  C6: for a label outside the closed set, the lookup in \<open>category_markers\<close> and in a
  loaded \<open>category_colors\<close> raises \<open>KeyError\<close>; no default is returned.
\<close>

theorem unknown_label_KeyError:
  assumes "k \<notin> category_labels" and "category_colors color_palette = Inr d"
  shows "dict_getitem category_markers k = Inl KeyError \<and> dict_getitem d k = Inl KeyError"
  using assms
  by (auto simp: category_colors_def dict_getitem_def category_markers_def category_labels_def
      split: sum.splits)

theorem unknown_label_KeyError_witness:
  "''square'' \<notin> category_labels
   \<and> category_colors (\<lambda>name n. take n [10, 20, 30, 40, 50, 60 :: nat])
       = Inr [''prime'' \<mapsto> 40, ''round'' \<mapsto> 10, ''round_minus_one'' \<mapsto> 30]
   \<and> dict_getitem category_markers ''square'' = Inl KeyError
   \<and> dict_getitem [''prime'' \<mapsto> 40 :: nat, ''round'' \<mapsto> 10, ''round_minus_one'' \<mapsto> 30] ''square''
       = Inl KeyError"
proof -
  have l: "''square'' \<notin> category_labels"
    by (simp add: category_labels_def)
  have c: "category_colors (\<lambda>name n. take n [10, 20, 30, 40, 50, 60 :: nat])
             = Inr [''prime'' \<mapsto> 40, ''round'' \<mapsto> 10, ''round_minus_one'' \<mapsto> 30]"
    by (simp add: category_colors_def colors_def list_getitem_def)
  show ?thesis
    using unknown_label_KeyError
            [of "''square''" "\<lambda>name n. take n [10, 20, 30, 40, 50, 60 :: nat]"
                "[''prime'' \<mapsto> 40, ''round'' \<mapsto> 10, ''round_minus_one'' \<mapsto> 30]"] l c
    by blast
qed

section \<open>Properties of the style configuration\<close>

lemma setup_plotting_style_result:
  assumes "library ''ggplot'' = Some theme"
  shows "setup_plotting_style library rc =
           Inr ((), (rc ++ theme)(''figure.dpi'' \<mapsto> RcInt 300)
                      ++ [''text.usetex'' \<mapsto> RcBool True, ''font.family'' \<mapsto> RcStr ''serif''])"
  using assms by (simp add: setup_plotting_style_def style_use_def)

text \<open>
  C7: \<open>setup_plotting_style\<close> is idempotent: from any starting configuration, the
  second call in a row leaves the configuration as the first call made it. The style
  \<open>ggplot\<close> is assumed to be registered, as it is in the plotting library.
\<close>

theorem setup_plotting_style_idempotent:
  assumes "library ''ggplot'' = Some theme"
  shows "\<exists>rc'. setup_plotting_style library rc = Inr ((), rc')
              \<and> setup_plotting_style library rc' = Inr ((), rc')"
proof -
  let ?rc' = "(rc ++ theme)(''figure.dpi'' \<mapsto> RcInt 300)
                ++ [''text.usetex'' \<mapsto> RcBool True, ''font.family'' \<mapsto> RcStr ''serif'']"
  have once: "setup_plotting_style library rc = Inr ((), ?rc')"
    using assms by (simp add: setup_plotting_style_result [of library theme])
  have "(?rc' ++ theme)(''figure.dpi'' \<mapsto> RcInt 300)
          ++ [''text.usetex'' \<mapsto> RcBool True, ''font.family'' \<mapsto> RcStr ''serif''] = ?rc'"
    by (auto simp: fun_eq_iff map_add_def split: option.splits)
  then have twice: "setup_plotting_style library ?rc' = Inr ((), ?rc')"
    using assms by (simp add: setup_plotting_style_result [of library theme])
  show ?thesis
    by (rule exI [of _ "?rc'"]) (simp only: once twice simp_thms)
qed

theorem setup_plotting_style_idempotent_witness:
  "[''ggplot'' \<mapsto> [''axes.grid'' \<mapsto> RcStr ''True'']] ''ggplot'' = Some [''axes.grid'' \<mapsto> RcStr ''True'']
   \<and> (\<exists>rc'. setup_plotting_style [''ggplot'' \<mapsto> [''axes.grid'' \<mapsto> RcStr ''True'']]
                [''figure.dpi'' \<mapsto> RcInt 100] = Inr ((), rc')
            \<and> setup_plotting_style [''ggplot'' \<mapsto> [''axes.grid'' \<mapsto> RcStr ''True'']] rc'
                = Inr ((), rc'))"
  using setup_plotting_style_idempotent
          [of "[''ggplot'' \<mapsto> [''axes.grid'' \<mapsto> RcStr ''True'']]"
              "[''axes.grid'' \<mapsto> RcStr ''True'']" "[''figure.dpi'' \<mapsto> RcInt 100]"]
  by simp

text \<open>
  C8: \<open>setup_plotting_style\<close> takes no argument and returns no value; it applies the
  built-in theme \<open>ggplot\<close>, sets the figure resolution to 300, turns TeX text rendering
  on and selects the serif font family. Every other setting \<open>k\<close> is as the theme
  leaves it.
\<close>

theorem setup_plotting_style_sets:
  assumes "library ''ggplot'' = Some theme"
    and "k \<notin> {''figure.dpi'', ''text.usetex'', ''font.family''}"
  shows "\<exists>rc'. setup_plotting_style library rc = Inr ((), rc')
              \<and> rc' ''figure.dpi'' = Some (RcInt 300)
              \<and> rc' ''text.usetex'' = Some (RcBool True)
              \<and> rc' ''font.family'' = Some (RcStr ''serif'')
              \<and> rc' k = (rc ++ theme) k"
proof -
  let ?rc' = "(rc ++ theme)(''figure.dpi'' \<mapsto> RcInt 300)
                ++ [''text.usetex'' \<mapsto> RcBool True, ''font.family'' \<mapsto> RcStr ''serif'']"
  have once: "setup_plotting_style library rc = Inr ((), ?rc')"
    using assms(1) by (simp add: setup_plotting_style_result [of library theme])
  have dpi: "?rc' ''figure.dpi'' = Some (RcInt 300)"
    and tex: "?rc' ''text.usetex'' = Some (RcBool True)"
    and font: "?rc' ''font.family'' = Some (RcStr ''serif'')"
    by (simp_all add: map_add_def)
  have other: "?rc' k = (rc ++ theme) k"
    using assms(2) by (simp add: map_add_def)
  show ?thesis
    by (rule exI [of _ "?rc'"]) (simp only: once dpi tex font other simp_thms)
qed

theorem setup_plotting_style_sets_witness:
  "[''ggplot'' \<mapsto> [''axes.grid'' \<mapsto> RcStr ''True'']] ''ggplot'' = Some [''axes.grid'' \<mapsto> RcStr ''True'']
   \<and> ''axes.grid'' \<notin> {''figure.dpi'', ''text.usetex'', ''font.family''}
   \<and> (\<exists>rc'. setup_plotting_style [''ggplot'' \<mapsto> [''axes.grid'' \<mapsto> RcStr ''True'']]
                [''figure.dpi'' \<mapsto> RcInt 100] = Inr ((), rc')
            \<and> rc' ''figure.dpi'' = Some (RcInt 300)
            \<and> rc' ''text.usetex'' = Some (RcBool True)
            \<and> rc' ''font.family'' = Some (RcStr ''serif'')
            \<and> rc' ''axes.grid'' = Some (RcStr ''True''))"
  using setup_plotting_style_sets
          [of "[''ggplot'' \<mapsto> [''axes.grid'' \<mapsto> RcStr ''True'']]"
              "[''axes.grid'' \<mapsto> RcStr ''True'']" "''axes.grid''" "[''figure.dpi'' \<mapsto> RcInt 100]"]
  by simp

section \<open>Properties of the byte-count axis formatter\<close>

text \<open>
  C3: \<open>setup_bytes_formatters\<close> returns no value and installs
  \<open>bytes_to_human_readable\<close> as the major tick formatter; with \<open>minor\<close> true it
  installs the same function for the minor ticks, with \<open>minor\<close> false a null
  formatter, whose label for every tick is the empty string.
\<close>

theorem setup_bytes_formatters_installs:
  "fst (setup_bytes_formatters axis minor) = ()
   \<and> major_formatter (snd (setup_bytes_formatters axis minor)) = FuncFormatter bytes_to_human_readable
   \<and> formatter_call (major_formatter (snd (setup_bytes_formatters axis minor))) x pos
       = bytes_to_human_readable x pos
   \<and> minor_formatter (snd (setup_bytes_formatters axis True)) = FuncFormatter bytes_to_human_readable
   \<and> formatter_call (minor_formatter (snd (setup_bytes_formatters axis True))) x pos
       = bytes_to_human_readable x pos
   \<and> minor_formatter (snd (setup_bytes_formatters axis False)) = NullFormatter
   \<and> formatter_call (minor_formatter (snd (setup_bytes_formatters axis False))) x pos = Inr []"
  by (simp add: setup_bytes_formatters_def Let_def)

text \<open>
  C9: the result of \<open>bytes_to_human_readable\<close> does not depend on its second
  argument, the tick position.
\<close>

theorem bytes_to_human_readable_ignores_position:
  "bytes_to_human_readable x p1 = bytes_to_human_readable x p2"
  by (simp add: bytes_to_human_readable_def)

section \<open>Powers of two and the leading bit\<close>

lemma pow2_powi: "pow2 e = 2 powi e"
  by (simp add: pow2_def power_int_def inverse_eq_divide power_one_over)

lemma pow2_pos: "0 < pow2 e"
  by (simp add: pow2_powi zero_less_power_int)

lemma pow2_add: "pow2 (a + b) = pow2 a * pow2 b"
  by (simp add: pow2_powi power_int_add)

lemma pow2_diff: "pow2 (a - b) = pow2 a / pow2 b"
  by (simp add: pow2_powi power_int_diff)

lemma pow2_less_iff: "pow2 a < pow2 b \<longleftrightarrow> a < b"
proof
  assume "a < b"
  then show "pow2 a < pow2 b"
    unfolding pow2_powi by (rule power_int_strict_increasing) simp
next
  assume l: "pow2 a < pow2 b"
  show "a < b"
  proof (rule ccontr)
    assume "\<not> a < b"
    then have "b \<le> a" by simp
    then have "pow2 b \<le> pow2 a"
      unfolding pow2_powi by (rule power_int_increasing) simp
    with l show False by simp
  qed
qed

lemma pow2_le_iff: "pow2 a \<le> pow2 b \<longleftrightarrow> a \<le> b"
  using pow2_less_iff [of b a] by (metis not_less)

lemma pow2_nat: "0 \<le> e \<Longrightarrow> pow2 e = of_int (2 ^ nat e)"
  by (simp add: pow2_def)

lemma pow2_of_nat: "pow2 (int n) = 2 ^ n"
  by (simp add: pow2_def)

lemma pow2_minus: "pow2 (- e) = 1 / pow2 e"
  using pow2_diff [of 0 e] by (simp add: pow2_def)

lemma floor_log2_bounds:
  assumes "0 < q"
  shows "pow2 (floor_log2 q) \<le> q" and "q < pow2 (floor_log2 q + 1)"
proof -
  have "pow2 (floor_log2 q) \<le> q \<and> q < pow2 (floor_log2 q + 1)"
  proof (cases "1 \<le> q")
    case True
    define n where "n = \<lfloor>q\<rfloor>"
    have n1: "1 \<le> n" using True by (simp add: n_def le_floor_iff)
    then have n0: "0 < n" by simp
    have b1: "1 \<le> bitlen n" using n0 by (simp add: bitlen_alt_def) 
    from bitlen_bounds [OF n0] have lo: "2 ^ nat (bitlen n - 1) \<le> n" and hi: "n < 2 ^ nat (bitlen n)"
      by simp_all
    have fl: "floor_log2 q = bitlen n - 1"
      using True by (simp add: floor_log2_def n_def)
    have "pow2 (bitlen n - 1) = of_int (2 ^ nat (bitlen n - 1))"
      using b1 by (simp add: pow2_nat)
    also have "\<dots> \<le> of_int n" using lo by (simp only: of_int_le_iff)
    also have "\<dots> \<le> q" by (simp add: n_def)
    finally have A: "pow2 (floor_log2 q) \<le> q" by (simp add: fl)
    have "q < of_int (n + 1)" using floor_correct [of q] by (simp add: n_def)
    also have "\<dots> \<le> of_int (2 ^ nat (bitlen n))" using hi by (simp only: of_int_le_iff)
    also have "\<dots> = pow2 (bitlen n)" using b1 by (simp add: pow2_nat)
    finally have B: "q < pow2 (floor_log2 q + 1)" by (simp add: fl)
    from A B show ?thesis ..
  next
    case False
    then have q1: "q < 1" by simp
    define n where "n = \<lceil>1 / q\<rceil>"
    define m where "m = n - 1"
    have "1 < 1 / q" using assms q1 by simp
    then have "1 < n" unfolding n_def by (simp add: less_ceiling_iff)
    then have m0: "0 < m" by (simp add: m_def)
    have b1: "1 \<le> bitlen m" using m0 by (simp add: bitlen_alt_def)
    from bitlen_bounds [OF m0] have lo: "2 ^ nat (bitlen m - 1) \<le> m" and hi: "m < 2 ^ nat (bitlen m)"
      by simp_all
    have fl: "floor_log2 q = - bitlen m"
      using False by (simp add: floor_log2_def n_def m_def)
    have "1 / q \<le> of_int n" using ceiling_correct [of "1 / q"] by (simp add: n_def)
    also have "\<dots> \<le> of_int (2 ^ nat (bitlen m))" using hi unfolding m_def by (simp only: of_int_le_iff)
    also have "\<dots> = pow2 (bitlen m)" using b1 by (simp add: pow2_nat)
    finally have "1 / q \<le> pow2 (bitlen m)" .
    then have "1 / pow2 (bitlen m) \<le> q"
      using assms pow2_pos [of "bitlen m"] by (simp add: field_simps)
    then have A: "pow2 (floor_log2 q) \<le> q" by (simp add: fl pow2_minus)
    have "pow2 (bitlen m - 1) = of_int (2 ^ nat (bitlen m - 1))"
      using b1 by (simp add: pow2_nat)
    also have "\<dots> \<le> of_int m" using lo by (simp only: of_int_le_iff)
    also have "\<dots> < 1 / q" using ceiling_correct [of "1 / q"] by (simp add: m_def n_def)
    finally have "pow2 (bitlen m - 1) < 1 / q" .
    then have "q < 1 / pow2 (bitlen m - 1)"
      using assms pow2_pos [of "bitlen m - 1"] by (simp add: field_simps)
    also have "\<dots> = pow2 (- (bitlen m - 1))" using pow2_minus [of "bitlen m - 1"] by simp
    finally have B: "q < pow2 (floor_log2 q + 1)" by (simp add: fl)
    from A B show ?thesis ..
  qed
  then show "pow2 (floor_log2 q) \<le> q" and "q < pow2 (floor_log2 q + 1)" by simp_all
qed

lemma floor_log2_unique:
  assumes "0 < q" and "pow2 k \<le> q" and "q < pow2 (k + 1)"
  shows "floor_log2 q = k"
proof -
  from floor_log2_bounds [OF assms(1)] assms(3)
  have "pow2 (floor_log2 q) < pow2 (k + 1)" by simp
  then have a: "floor_log2 q < k + 1" by (simp only: pow2_less_iff)
  from floor_log2_bounds [OF assms(1)] assms(2)
  have "pow2 k < pow2 (floor_log2 q + 1)" by simp
  then have b: "k < floor_log2 q + 1" by (simp only: pow2_less_iff)
  from a b show ?thesis by simp
qed

section \<open>Rounding to an integer\<close>

lemma round_half_even_of_int: "round_half_even (of_int n) = n"
  by (simp add: round_half_even_def)

lemma round_half_even_near: "\<bar>r - of_int (round_half_even r)\<bar> \<le> 1 / 2"
proof -
  have "of_int \<lfloor>r\<rfloor> \<le> r" and "r < of_int \<lfloor>r\<rfloor> + 1"
    using floor_correct [of r] by simp_all
  then show ?thesis
    by (auto simp: round_half_even_def Let_def abs_le_iff)
qed

lemma round_half_even_tie:
  assumes "\<bar>r - of_int (round_half_even r)\<bar> = 1 / 2"
  shows "even (round_half_even r)"
proof -
  define d where "d = r - of_int \<lfloor>r\<rfloor>"
  have d: "0 \<le> d" "d < 1"
    using floor_correct [of r] by (simp_all add: d_def)
  consider "d < 1 / 2" | "1 / 2 < d" | "d = 1 / 2"
    by linarith
  then show ?thesis
  proof cases
    case 1
    then have "round_half_even r = \<lfloor>r\<rfloor>"
      by (simp add: round_half_even_def Let_def d_def)
    with assms 1 d show ?thesis
      by (simp add: d_def)
  next
    case 2
    then have "round_half_even r = \<lfloor>r\<rfloor> + 1"
      by (simp add: round_half_even_def Let_def d_def)
    with assms 2 d show ?thesis
      by (simp add: d_def abs_if split: if_splits)
  next
    case 3
    then show ?thesis
      by (simp add: round_half_even_def Let_def d_def)
  qed
qed

lemma round_half_even_nonneg: "0 \<le> r \<Longrightarrow> 0 \<le> round_half_even r"
  by (auto simp: round_half_even_def Let_def)


section \<open>Rounding to a double\<close>

lemma pow2_53: "pow2 53 = 2 ^ 53"
  by (simp add: pow2_def)

lemma round_to_double_unfold:
  assumes "0 < q"
  shows "round_to_double q =
           of_int (round_half_even (q / pow2 (max (floor_log2 q - 52) (- 1074))))
             * pow2 (max (floor_log2 q - 52) (- 1074))"
  using assms by (simp add: round_to_double_def Let_def)

lemma scaled_below_2_53:
  assumes "0 < q"
  shows "q / pow2 (max (floor_log2 q - 52) (- 1074)) < 2 ^ 53"
proof -
  let ?E = "max (floor_log2 q - 52) (- 1074)"
  have "floor_log2 q + 1 \<le> 53 + ?E" by simp
  then have "pow2 (floor_log2 q + 1) \<le> pow2 (53 + ?E)"
    by (simp only: pow2_le_iff)
  with floor_log2_bounds(2) [OF assms] have "q < pow2 (53 + ?E)"
    by simp
  then have "q < 2 ^ 53 * pow2 ?E"
    by (simp only: pow2_add pow2_53)
  then show ?thesis
    using pow2_pos [of ?E] by (simp add: field_simps)
qed

lemma round_to_double_exact:
  assumes "0 < m" and "m < 2 ^ 53" and "- 1074 \<le> e"
  shows "round_to_double (of_int m * pow2 e) = of_int m * pow2 e"
proof -
  define q where "q = rat_of_int m * pow2 e"
  define E where "E = max (floor_log2 q - 52) (- 1074)"
  have q0: "0 < q"
    using assms(1) pow2_pos [of e] by (simp add: q_def)
  have "rat_of_int m < 2 ^ 53"
    using assms(2) by (metis of_int_less_iff of_int_numeral of_int_power)
  then have "q < 2 ^ 53 * pow2 e"
    using pow2_pos [of e] by (simp add: q_def)
  then have "q < pow2 (53 + e)"
    by (simp only: pow2_add pow2_53)
  with floor_log2_bounds(1) [OF q0] have "pow2 (floor_log2 q) < pow2 (53 + e)"
    by simp
  then have "floor_log2 q < 53 + e"
    by (simp only: pow2_less_iff)
  then have Ee: "E \<le> e"
    using assms(3) by (simp add: E_def)
  have "q / pow2 E = rat_of_int m * pow2 (e - E)"
    by (simp add: q_def pow2_diff)
  also have "\<dots> = rat_of_int (m * 2 ^ nat (e - E))"
    using Ee by (simp add: pow2_nat)
  finally have sc: "q / pow2 E = rat_of_int (m * 2 ^ nat (e - E))" .
  have "round_to_double q = rat_of_int (round_half_even (q / pow2 E)) * pow2 E"
    using round_to_double_unfold [OF q0] by (simp add: E_def)
  also have "\<dots> = q / pow2 E * pow2 E"
    by (simp only: sc round_half_even_of_int)
  also have "\<dots> = q"
    using pow2_pos [of E] by simp
  finally show ?thesis
    by (simp add: q_def)
qed

lemma is_double_repr:
  assumes "is_double q" and "0 < q"
  obtains m e where "q = of_int m * pow2 e" and "0 < m" and "m < 2 ^ 53" and "- 1074 \<le> e"
proof -
  define E where "E = max (floor_log2 q - 52) (- 1074)"
  define M where "M = round_half_even (q / pow2 E)"
  have "round_to_double q = q"
    using assms(1) by (simp add: is_double_def)
  then have q: "q = rat_of_int M * pow2 E"
    using round_to_double_unfold [OF assms(2)] by (simp add: E_def M_def)
  then have sc: "rat_of_int M = q / pow2 E"
    using pow2_pos [of E] by simp
  have "0 < rat_of_int M"
    unfolding sc using assms(2) pow2_pos [of E] by simp
  then have M0: "0 < M" by simp
  have "rat_of_int M < 2 ^ 53"
    unfolding sc E_def by (rule scaled_below_2_53 [OF assms(2)])
  then have "rat_of_int M < rat_of_int (2 ^ 53)" by simp
  then have M1: "M < 2 ^ 53" by (simp only: of_int_less_iff)
  have "- 1074 \<le> E" by (simp add: E_def)
  with q M0 M1 show ?thesis by (rule that)
qed

lemma is_double_div:
  assumes "is_double q" and "pow2 k \<le> q"
  shows "round_to_double (q / pow2 k) = q / pow2 k"
proof -
  have q0: "0 < q"
    using assms(2) pow2_pos [of k] by simp
  from is_double_repr [OF assms(1) q0] obtain m e
    where q: "q = of_int m * pow2 e" and m: "0 < m" "m < 2 ^ 53" and e: "- 1074 \<le> e"
    by blast
  have "rat_of_int m < 2 ^ 53"
    using m(2) by (metis of_int_less_iff of_int_numeral of_int_power)
  then have "q < 2 ^ 53 * pow2 e"
    using pow2_pos [of e] by (simp add: q)
  then have "q < pow2 (53 + e)"
    by (simp only: pow2_add pow2_53)
  with assms(2) have "pow2 k < pow2 (53 + e)" by simp
  then have "k < 53 + e" by (simp only: pow2_less_iff)
  then have ek: "- 1074 \<le> e - k" by simp
  have "q / pow2 k = rat_of_int m * pow2 (e - k)"
    by (simp add: q pow2_diff)
  then show ?thesis
    using round_to_double_exact [OF m ek] by simp
qed

lemma is_double_of_int:
  assumes "0 \<le> i" and "i \<le> 2 ^ 53"
  shows "is_double (of_int i)"
proof -
  have small: "\<not> double_overflow (rat_of_int i)"
  proof -
    have "i < 2 ^ 1024" using assms(2) by simp
    then have "rat_of_int i < rat_of_int (2 ^ 1024)" by (simp only: of_int_less_iff)
    then show ?thesis by (simp add: double_overflow_def)
  qed
  consider "i = 0" | "0 < i" "i < 2 ^ 53" | "i = 2 ^ 53"
    using assms by linarith
  then have "round_to_double (rat_of_int i) = rat_of_int i"
  proof cases
    case 1
    then show ?thesis by (simp add: round_to_double_def)
  next
    case 2
    then show ?thesis
      using round_to_double_exact [of i 0] by (simp add: pow2_def)
  next
    case 3
    then show ?thesis
      using round_to_double_exact [of 1 53] by (simp add: pow2_def)
  qed
  with small assms(1) show ?thesis
    by (simp add: is_double_def)
qed

lemma pow2_numeral: "pow2 (numeral n) = 2 ^ numeral n"
  by (simp add: pow2_def)


section \<open>The three branches on exact values\<close>

lemma exact_value_cases:
  assumes "exact_value x = Some v"
  obtains (int) i where "x = PyInt i" and "0 \<le> i" and "v = of_int i" and "is_double v"
  | (float) "x = PyFloat (Finite False v)" and "is_double v"
proof (cases x)
  case (PyInt i)
  with assms show ?thesis
    by (auto intro: int split: if_splits)
next
  case (PyFloat f)
  with assms show ?thesis
    by (cases f) (auto intro: float split: if_splits)
qed

lemma int_to_float_exact:
  assumes "0 \<le> i" and "is_double (of_int i)"
  shows "int_to_float i = Inr (Finite False (of_int i))"
  using assms by (simp add: int_to_float_def is_double_def)

lemma format_0f_exact:
  assumes "exact_value x = Some v"
  shows "format_0f x = Inr (decimal (nat (round_half_even v)))"
  using assms
  by (cases rule: exact_value_cases) (simp_all add: int_to_float_exact)

lemma lt_int_exact:
  assumes "exact_value x = Some v"
  shows "lt_int x b \<longleftrightarrow> v < of_int b"
  using assms
  by (cases rule: exact_value_cases) simp_all

lemma is_double_pow2_le:
  assumes "is_double v" and "pow2 k \<le> v" and "0 \<le> k"
  shows "\<not> double_overflow (v / pow2 k)"
proof -
  have "1 \<le> pow2 k"
    using assms(3) pow2_le_iff [of 0 k] by (simp add: pow2_def)
  moreover have "0 \<le> v"
    using assms(1) by (simp add: is_double_def)
  ultimately have "v * 1 \<le> v * pow2 k"
    by (intro mult_left_mono)
  then have "v / pow2 k \<le> v"
    using pow2_pos [of k] by (simp add: field_simps)
  with assms(1) show ?thesis
    by (simp add: is_double_def double_overflow_def)
qed

lemma int_to_float_pow2:
  assumes "k \<le> 53"
  shows "int_to_float (2 ^ k) = Inr (Finite False (2 ^ k))"
proof -
  have "(2::int) ^ k \<le> 2 ^ 53"
    using assms by (simp only: power_increasing_iff)
  then have "is_double (rat_of_int (2 ^ k))"
    by (intro is_double_of_int) simp_all
  then show ?thesis
    using int_to_float_exact [of "2 ^ k"] by simp
qed

lemma truediv_int_exact:
  assumes "exact_value x = Some v" and "2 ^ k \<le> v" and "k \<le> 53"
  shows "truediv_int x (2 ^ k) = Inr (Finite False (v / 2 ^ k))"
proof -
  have p: "pow2 (int k) = 2 ^ k"
    by (rule pow2_of_nat)
  from assms(1) have dbl: "is_double v"
    by (cases rule: exact_value_cases) simp_all
  have rnd: "round_to_double (v / 2 ^ k) = v / 2 ^ k"
    using is_double_div [OF dbl, of "int k"] assms(2) by (simp add: p)
  have ovf: "\<not> double_overflow (v / 2 ^ k)"
    using is_double_pow2_le [OF dbl, of "int k"] assms(2) by (simp add: p)
  from assms(1) show ?thesis
  proof (cases rule: exact_value_cases)
    case (int i)
    then show ?thesis
      using rnd ovf by (simp add: int_truediv_def Let_def)
  next
    case float
    then show ?thesis
      using rnd ovf assms(2) by (simp add: int_to_float_pow2 [OF assms(3)] Let_def)
  qed
qed

lemma exact_value_int:
  assumes "0 \<le> i" and "i \<le> 2 ^ 53"
  shows "exact_value (PyInt i) = Some (of_int i)"
  using assms is_double_of_int [OF assms] by simp

lemma bytes_to_human_readable_exact:
  assumes "exact_value x = Some v"
  shows "bytes_to_human_readable x pos =
           Inr (if v < 1024 then decimal (nat (round_half_even v)) @ ''B''
                else if v < 1024 ^ 2 then decimal (nat (round_half_even (v / 1024))) @ ''KiB''
                else decimal (nat (round_half_even (v / 1024 ^ 2))) @ ''MiB'')"
proof -
  have lt1: "lt_int x 1024 \<longleftrightarrow> v < 1024"
    using lt_int_exact [OF assms, of 1024] by simp
  have lt2: "lt_int x (1024 ^ 2) \<longleftrightarrow> v < 1024 ^ 2"
    using lt_int_exact [OF assms, of "1024 ^ 2"] by simp
  consider "v < 1024" | "1024 \<le> v" "v < 1024 ^ 2" | "1024 ^ 2 \<le> v"
    by linarith
  then show ?thesis
  proof cases
    case 1
    with lt1 show ?thesis
      by (simp add: bytes_to_human_readable_def format_0f_exact [OF assms])
  next
    case 2
    then have "truediv_int x (2 ^ 10) = Inr (Finite False (v / 2 ^ 10))"
      by (intro truediv_int_exact [OF assms]) simp_all
    then have "truediv_int x 1024 = Inr (Finite False (v / 1024))"
      by simp
    with 2 lt1 lt2 show ?thesis
      by (simp add: bytes_to_human_readable_def)
  next
    case 3
    then have "truediv_int x (2 ^ 20) = Inr (Finite False (v / 2 ^ 20))"
      by (intro truediv_int_exact [OF assms]) simp_all
    then have "truediv_int x (1024 ^ 2) = Inr (Finite False (v / 1024 ^ 2))"
      by simp
    with 3 lt1 lt2 show ?thesis
      by (simp add: bytes_to_human_readable_def)
  qed
qed

lemma bytes_to_human_readable_int:
  assumes "0 \<le> i" and "i \<le> 2 ^ 53"
  shows "bytes_to_human_readable (PyInt i) pos =
           Inr (if i < 1024 then decimal (nat i) @ ''B''
                else if i < 1024 ^ 2 then decimal (nat (round_half_even (of_int i / 1024))) @ ''KiB''
                else decimal (nat (round_half_even (of_int i / 1024 ^ 2))) @ ''MiB'')"
proof -
  have lt1: "rat_of_int i < 1024 \<longleftrightarrow> i < 1024"
    using of_int_less_iff [of i 1024, where ?'a = rat] by simp
  have lt2: "rat_of_int i < 1024 ^ 2 \<longleftrightarrow> i < 1024 ^ 2"
    using of_int_less_iff [of i "1024 ^ 2", where ?'a = rat] by simp
  show ?thesis
    unfolding bytes_to_human_readable_exact [OF exact_value_int [OF assms]] lt1 lt2
    by (simp add: round_half_even_of_int)
qed

lemma round_half_even_values:
  "round_half_even 1 = 1"
  "round_half_even 2 = 2"
  "round_half_even 5 = 5"
  "round_half_even 10 = 10"
  "round_half_even (3 / 2) = 2"
  "round_half_even (5 / 2) = 2"
  by code_simp+

lemma int_examples:
  "bytes_to_human_readable (PyInt 0) pos = Inr ''0B''"
  "bytes_to_human_readable (PyInt 512) pos = Inr ''512B''"
  "bytes_to_human_readable (PyInt 1023) pos = Inr ''1023B''"
  "bytes_to_human_readable (PyInt 1024) pos = Inr ''1KiB''"
  "bytes_to_human_readable (PyInt 1536) pos = Inr ''2KiB''"
  "bytes_to_human_readable (PyInt 2048) pos = Inr ''2KiB''"
  "bytes_to_human_readable (PyInt 2560) pos = Inr ''2KiB''"
  "bytes_to_human_readable (PyInt (1024 ^ 2)) pos = Inr ''1MiB''"
  "bytes_to_human_readable (PyInt 5242880) pos = Inr ''5MiB''"
  "bytes_to_human_readable (PyInt (10 * 1024 ^ 2)) pos = Inr ''10MiB''"
  by (simp_all add: bytes_to_human_readable_int round_half_even_values decimal.simps digit_char_def)

lemma round_half_even_numeral: "round_half_even (numeral k) = numeral k"
  using round_half_even_of_int [of "numeral k"] by simp

lemma is_double_numeral_examples:
  "is_double 2048" "is_double 5"
  using is_double_of_int [of 2048] is_double_of_int [of 5] by simp_all

text \<open>
  C1 (amended): for every non-negative int that a double holds exactly (every int up
  to \<open>2^53\<close> is one) and every finite float with a clear sign bit, the result follows
  the three-way rule: below 1024 the value to zero decimal places and \<open>B\<close>; from 1024
  and below \<open>1024^2\<close> the value over 1024, rounded, and \<open>KiB\<close>; from \<open>1024^2\<close> the
  value over \<open>1024^2\<close>, rounded, and \<open>MiB\<close>. The five examples of the claim hold.
\<close>

theorem bytes_to_human_readable_thresholds:
  "(exact_value x = Some v \<longrightarrow>
      (v < 1024 \<longrightarrow>
         bytes_to_human_readable x pos = Inr (decimal (nat (round_half_even v)) @ ''B''))
    \<and> (1024 \<le> v \<and> v < 1024 ^ 2 \<longrightarrow>
         bytes_to_human_readable x pos = Inr (decimal (nat (round_half_even (v / 1024))) @ ''KiB''))
    \<and> (1024 ^ 2 \<le> v \<longrightarrow>
         bytes_to_human_readable x pos = Inr (decimal (nat (round_half_even (v / 1024 ^ 2))) @ ''MiB'')))
   \<and> bytes_to_human_readable (PyInt 0) pos = Inr ''0B''
   \<and> bytes_to_human_readable (PyInt 1023) pos = Inr ''1023B''
   \<and> bytes_to_human_readable (PyInt 1024) pos = Inr ''1KiB''
   \<and> bytes_to_human_readable (PyInt (1024 ^ 2)) pos = Inr ''1MiB''
   \<and> bytes_to_human_readable (PyInt (10 * 1024 ^ 2)) pos = Inr ''10MiB''"
proof -
  have "bytes_to_human_readable x pos =
           Inr (if v < 1024 then decimal (nat (round_half_even v)) @ ''B''
                else if v < 1024 ^ 2 then decimal (nat (round_half_even (v / 1024))) @ ''KiB''
                else decimal (nat (round_half_even (v / 1024 ^ 2))) @ ''MiB'')"
    if "exact_value x = Some v"
    using that by (rule bytes_to_human_readable_exact)
  with int_examples [of pos] show ?thesis
    by simp
qed

theorem bytes_to_human_readable_thresholds_witness:
  "exact_value (PyInt 512) = Some 512 \<and> (512 :: rat) < 1024
     \<and> bytes_to_human_readable (PyInt 512) (0 :: int) = Inr ''512B''
   \<and> exact_value (PyFloat (Finite False 2048)) = Some 2048
     \<and> (1024 :: rat) \<le> 2048 \<and> (2048 :: rat) < 1024 ^ 2
     \<and> bytes_to_human_readable (PyFloat (Finite False 2048)) (0 :: int) = Inr ''2KiB''
   \<and> exact_value (PyInt 5242880) = Some 5242880 \<and> (1024 ^ 2 :: rat) \<le> 5242880
     \<and> bytes_to_human_readable (PyInt 5242880) (0 :: int) = Inr ''5MiB''"
proof -
  have e1: "exact_value (PyInt 512) = Some 512"
    using exact_value_int [of 512] by simp
  have e2: "exact_value (PyFloat (Finite False 2048)) = Some 2048"
    by (simp add: is_double_numeral_examples)
  have e3: "exact_value (PyInt 5242880) = Some 5242880"
    using exact_value_int [of 5242880] by simp
  show ?thesis
    using bytes_to_human_readable_thresholds [of "PyInt 512" 512 "0 :: int"]
      bytes_to_human_readable_thresholds [of "PyFloat (Finite False 2048)" 2048 "0 :: int"]
      bytes_to_human_readable_thresholds [of "PyInt 5242880" 5242880 "0 :: int"]
      e1 e2 e3
    by (simp add: round_half_even_values round_half_even_numeral decimal.simps digit_char_def)
qed

lemma round_to_double_2_1024: "round_to_double (2 ^ 1024) = 2 ^ 1024"
  using round_to_double_exact [of 1 1024] by (simp add: pow2_numeral)

text \<open>
  C1 as stated fails on a non-negative int whose quotient by \<open>1024^2\<close> is too large for
  a float: the division raises \<open>OverflowError\<close> and nothing is returned.
\<close>

theorem bytes_to_human_readable_thresholds_counterexample:
  "bytes_to_human_readable (PyInt (2 ^ 1044)) (0 :: int) = Inl OverflowError"
proof -
  have "rat_of_int \<bar>2 ^ 1044\<bar> / rat_of_int \<bar>1024 ^ 2\<bar> = 2 ^ 1024"
    by simp
  then have "int_truediv (2 ^ 1044) (1024 ^ 2) = Inl OverflowError"
    unfolding int_truediv_def
    by (simp only: round_to_double_2_1024 Let_def double_overflow_def) simp
  moreover have "\<not> (2 ^ 1044 < (1024 :: int))" and "\<not> (2 ^ 1044 < (1024 ^ 2 :: int))"
    by simp_all
  ultimately show ?thesis
    by (simp only: bytes_to_human_readable_def lt_int.simps truediv_int.simps if_False sum.case)
qed

section \<open>Rounding in the KiB and MiB branches\<close>

lemma round_half_even_nearest_even:
  "\<bar>r - of_int (round_half_even r)\<bar> \<le> 1 / 2
   \<and> (\<bar>r - of_int (round_half_even r)\<bar> < 1 / 2 \<or> even (round_half_even r))"
  using round_half_even_near [of r] round_half_even_tie [of r] by linarith

text \<open>
  C2 (amended): for every non-negative int that a double holds exactly (every int of the
  KiB branch and every int up to \<open>2^53\<close> is one) and every finite float with a clear
  sign bit, the number displayed in the KiB and MiB branches is the exact quotient by
  1024, respectively \<open>1024^2\<close>, rounded to the nearest integer, a tie going to the even
  neighbour: it is an integer \<open>n\<close> at distance at most \<open>1/2\<close> from the quotient, and even
  when the distance is \<open>1/2\<close>. So 1536 gives \<open>2KiB\<close> (not floored) and 2560 gives
  \<open>2KiB\<close> (not ceiled).
\<close>

theorem bytes_to_human_readable_half_even:
  "(exact_value x = Some v \<and> 1024 \<le> v \<longrightarrow>
      (\<exists>n. 0 \<le> n
         \<and> bytes_to_human_readable x pos
             = Inr (decimal (nat n) @ (if v < 1024 ^ 2 then ''KiB'' else ''MiB''))
         \<and> \<bar>v / (if v < 1024 ^ 2 then 1024 else 1024 ^ 2) - of_int n\<bar> \<le> 1 / 2
         \<and> (\<bar>v / (if v < 1024 ^ 2 then 1024 else 1024 ^ 2) - of_int n\<bar> < 1 / 2 \<or> even n)))
   \<and> bytes_to_human_readable (PyInt 1536) pos = Inr ''2KiB''
   \<and> bytes_to_human_readable (PyInt 2560) pos = Inr ''2KiB''"
proof -
  have "\<exists>n. 0 \<le> n
         \<and> bytes_to_human_readable x pos
             = Inr (decimal (nat n) @ (if v < 1024 ^ 2 then ''KiB'' else ''MiB''))
         \<and> \<bar>v / (if v < 1024 ^ 2 then 1024 else 1024 ^ 2) - of_int n\<bar> \<le> 1 / 2
         \<and> (\<bar>v / (if v < 1024 ^ 2 then 1024 else 1024 ^ 2) - of_int n\<bar> < 1 / 2 \<or> even n)"
    if x: "exact_value x = Some v" and v: "1024 \<le> v"
  proof -
    define d :: rat where "d = (if v < 1024 ^ 2 then 1024 else 1024 ^ 2)"
    have d0: "0 < d" by (simp add: d_def)
    have "0 \<le> v / d"
      using v d0 by simp
    then have n0: "0 \<le> round_half_even (v / d)"
      by (rule round_half_even_nonneg)
    have res: "bytes_to_human_readable x pos
             = Inr (decimal (nat (round_half_even (v / d))) @ (if v < 1024 ^ 2 then ''KiB'' else ''MiB''))"
      using v unfolding bytes_to_human_readable_exact [OF x] d_def by simp
    show ?thesis
      unfolding d_def [symmetric]
      using n0 res round_half_even_nearest_even [of "v / d"] by blast
  qed
  with int_examples [of pos] show ?thesis
    by simp
qed

theorem bytes_to_human_readable_half_even_witness:
  "exact_value (PyInt 2560) = Some 2560 \<and> (1024 :: rat) \<le> 2560
   \<and> (\<exists>n. 0 \<le> n
          \<and> bytes_to_human_readable (PyInt 2560) (0 :: int) = Inr (decimal (nat n) @ ''KiB'')
          \<and> \<bar>2560 / 1024 - rat_of_int n\<bar> \<le> 1 / 2
          \<and> (\<bar>2560 / 1024 - rat_of_int n\<bar> < 1 / 2 \<or> even n))"
proof -
  have e: "exact_value (PyInt 2560) = Some 2560"
    using exact_value_int [of 2560] by simp
  show ?thesis
    using bytes_to_human_readable_half_even [of "PyInt 2560" 2560 "0 :: int", THEN conjunct1] e
    by simp
qed

lemma floor_log2_example: "floor_log2 (9007199256313855 / 1024 ^ 2) = 33"
  by (rule floor_log2_unique) (simp_all add: pow2_def)

lemma round_to_double_example:
  "round_to_double (9007199256313855 / 1024 ^ 2) = 17179869187 / 2"
proof -
  have "round_half_even (9007199256313855 / 2) = 4503599628156928"
    by code_simp
  then show ?thesis
    using round_to_double_unfold [of "9007199256313855 / 1024 ^ 2"] floor_log2_example
    by (simp add: pow2_def)
qed

text \<open>
  C2 as stated fails in the MiB branch. For the int \<open>2^53 + 2^20 + 2^19 - 1\<close> the quotient
  by \<open>1024^2\<close> is first rounded to a float, \<open>8589934593.5\<close>, and the format rounds that
  tie to \<open>8589934594\<close>, which is farther than \<open>1/2\<close> from the quotient. A NaN is not below
  \<open>1024^2\<close> either, reaches the MiB branch and is displayed as \<open>nan\<close>.
\<close>

theorem bytes_to_human_readable_half_even_counterexample:
  "bytes_to_human_readable (PyInt 9007199256313855) (0 :: int) = Inr ''8589934594MiB''
   \<and> \<not> \<bar>9007199256313855 / 1024 ^ 2 - rat_of_int 8589934594\<bar> \<le> 1 / 2
   \<and> bytes_to_human_readable (PyFloat NaN) (0 :: int) = Inr ''nanMiB''"
proof -
  have r: "round_half_even (17179869187 / 2) = 8589934594"
    by code_simp
  have "int_truediv 9007199256313855 (1024 ^ 2) = Inr (Finite False (17179869187 / 2))"
    using round_to_double_example by (simp add: int_truediv_def Let_def double_overflow_def)
  then have "bytes_to_human_readable (PyInt 9007199256313855) (0 :: int) = Inr ''8589934594MiB''"
    by (simp add: bytes_to_human_readable_def r decimal.simps digit_char_def)
  moreover have "\<not> \<bar>9007199256313855 / 1024 ^ 2 - rat_of_int 8589934594\<bar> \<le> 1 / 2"
    by simp
  moreover have "bytes_to_human_readable (PyFloat NaN) (0 :: int) = Inr ''nanMiB''"
    by (simp add: bytes_to_human_readable_def int_to_float_pow2 [of 20, simplified])
  ultimately show ?thesis
    by simp
qed

section \<open>Totality and negative values\<close>
















end
